theory Spec2Isabelle
  imports Complex_Main "HOL-Library.Word"
begin

section \<open>JavaScript strings\<close>

text \<open>
  A JavaScript string is a sequence of UTF-16 code units. \<^verbatim>\<open>length\<close>, \<^verbatim>\<open>split\<close>,
  \<^verbatim>\<open>trim\<close> and \<^verbatim>\<open>replace\<close> with a regular expression that has no \<^verbatim>\<open>u\<close> flag all work
  on code units, so a string is modelled as a list of 16-bit words. \<open>str\<close> embeds an
  ASCII literal of the source.
\<close>

type_synonym jsstring = "16 word list"

definition str :: "string \<Rightarrow> jsstring" where
  "str s = map of_char s"

abbreviation SP :: "16 word" where "SP \<equiv> 0x20"
abbreviation NL :: "16 word" where "NL \<equiv> 0x0A"
abbreviation AMP :: "16 word" where "AMP \<equiv> 0x26"
abbreviation LT :: "16 word" where "LT \<equiv> 0x3C"
abbreviation GT :: "16 word" where "GT \<equiv> 0x3E"

text \<open>
  The code units \<^verbatim>\<open>String.prototype.trim\<close> strips: ECMAScript's WhiteSpace (TAB, VT, FF,
  ZWNBSP and the Unicode space separators) and LineTerminator (LF, CR, LS, PS).
\<close>

definition is_ws :: "16 word \<Rightarrow> bool" where
  "is_ws c \<longleftrightarrow>
     c = 0x09 \<or> c = 0x0A \<or> c = 0x0B \<or> c = 0x0C \<or> c = 0x0D \<or> c = 0x20 \<or> c = 0xA0 \<or>
     c = 0x1680 \<or> (0x2000 \<le> c \<and> c \<le> 0x200A) \<or> c = 0x2028 \<or> c = 0x2029 \<or>
     c = 0x202F \<or> c = 0x205F \<or> c = 0x3000 \<or> c = 0xFEFF"

text \<open>\<^verbatim>\<open>s.trim()\<close>: white space removed from both ends.\<close>

definition trim :: "jsstring \<Rightarrow> jsstring" where
  "trim s = rev (dropWhile is_ws (rev (dropWhile is_ws s)))"

text \<open>
  Splitting at every code unit that satisfies \<open>P\<close>: the pieces between the separators.
  The empty string gives one empty piece, and two separators in a row give an empty
  piece between them, so the result is never empty (lemma \<open>split_on_nonempty\<close> below)
  and its head and tail are defined. \<^verbatim>\<open>s.split(" ")\<close> splits at every single space.
\<close>

fun split_on :: "(16 word \<Rightarrow> bool) \<Rightarrow> jsstring \<Rightarrow> jsstring list" where
  "split_on P [] = [[]]"
| "split_on P (c # cs) =
     (if P c then [] # split_on P cs
      else (c # hd (split_on P cs)) # tl (split_on P cs))"

definition split_sp :: "jsstring \<Rightarrow> jsstring list" where
  "split_sp s = split_on (\<lambda>c. c = SP) s"

text \<open>\<^verbatim>\<open>xs.join(sep)\<close>.\<close>

fun join :: "jsstring \<Rightarrow> jsstring list \<Rightarrow> jsstring" where
  "join sep [] = []"
| "join sep [x] = x"
| "join sep (x # y # ys) = x @ sep @ join sep (y # ys)"

text \<open>\<^verbatim>\<open>s.replace(/c/g, r)\<close> for a single code unit \<open>c\<close>: every \<open>c\<close> becomes \<open>r\<close>.\<close>

definition replace_all :: "16 word \<Rightarrow> jsstring \<Rightarrow> jsstring \<Rightarrow> jsstring" where
  "replace_all c r s = concat (map (\<lambda>x. if x = c then r else [x]) s)"

text \<open>
  \<^verbatim>\<open>xs[i]\<close>: the element, or \<^verbatim>\<open>undefined\<close> (\<open>None\<close>) outside the array.
\<close>

definition js_index :: "'a list \<Rightarrow> int \<Rightarrow> 'a option" where
  "js_index xs i = (if 0 \<le> i \<and> i < int (length xs) then Some (xs ! nat i) else None)"

text \<open>
  A value of \<^verbatim>\<open>process.env\<close>, or a string that may be \<^verbatim>\<open>undefined\<close>, is truthy when
  it is a non-empty string.
\<close>

definition truthy :: "jsstring option \<Rightarrow> bool" where
  "truthy v = (case v of None \<Rightarrow> False | Some s \<Rightarrow> s \<noteq> [])"

text \<open>A non-negative integer inside a template literal: its decimal digits.\<close>

fun dec :: "nat \<Rightarrow> jsstring" where
  "dec n = (if n < 10 then [str ''0123456789'' ! n]
            else dec (n div 10) @ [str ''0123456789'' ! (n mod 10)])"

declare dec.simps [simp del]

section \<open>wrapText\<close>

text \<open>
  \<^verbatim>\<open>
  function wrapText(text, maxChars = 90) {
    const words = text.split(" ");
    const lines = [];
    let line = "";
    for (const word of words) {
      if ((line + word).length > maxChars) {
        lines.push(line.trim());
        line = word + " ";
      } else {
        line += word + " ";
      }
    }
    if (line.trim()) lines.push(line.trim());
    return lines;
  }
  \<close>
  The same text stands in both variants of the script. \<open>wrap_loop\<close> is the \<^verbatim>\<open>for\<close> loop,
  with the two variables it updates as arguments and as result. The width is a
  natural number: the script only ever uses the default, 90.
\<close>

fun wrap_loop :: "jsstring list \<Rightarrow> jsstring list \<Rightarrow> jsstring \<Rightarrow> nat \<Rightarrow> jsstring list \<times> jsstring" where
  "wrap_loop [] lines line maxChars = (lines, line)"
| "wrap_loop (word # words) lines line maxChars =
     (if length (line @ word) > maxChars
      then wrap_loop words (lines @ [trim line]) (word @ [SP]) maxChars
      else wrap_loop words lines (line @ word @ [SP]) maxChars)"

definition wrapText :: "jsstring \<Rightarrow> nat \<Rightarrow> jsstring list" where
  "wrapText text maxChars =
     (let words = split_sp text;
          (lines, line) = wrap_loop words [] [] maxChars
      in if trim line \<noteq> [] then lines @ [trim line] else lines)"

subsection \<open>Vocabulary of the wrapping claims\<close>

text \<open>
  The words of a text in the ordinary sense: its maximal runs of code units that are
  not white space. Normalising a text puts exactly one space between its words and
  none around them.
\<close>

definition ws_words :: "jsstring \<Rightarrow> jsstring list" where
  "ws_words s = filter (\<lambda>w. w \<noteq> []) (split_on is_ws s)"

definition normalize :: "jsstring \<Rightarrow> jsstring" where
  "normalize s = join [SP] (ws_words s)"

text \<open>The line a group of words makes: the words with single spaces between, trimmed.\<close>

definition line_of :: "jsstring list \<Rightarrow> jsstring" where
  "line_of g = trim (join [SP] g)"

text \<open>
  The variable \<^verbatim>\<open>line\<close> of the loop while it holds the words \<open>g\<close>: every word followed
  by a space.
\<close>

definition sp_cat :: "jsstring list \<Rightarrow> jsstring" where
  "sp_cat g = concat (map (\<lambda>w. w @ [SP]) g)"

section \<open>escapeSvg and writeSvg\<close>

text \<open>
  \<^verbatim>\<open>
  function escapeSvg(text) {
    return text.replace(/&/g, "&amp;").replace(/</g, "&lt;").replace(/>/g, "&gt;");
  }
  \<close>
\<close>

definition escapeSvg :: "jsstring \<Rightarrow> jsstring" where
  "escapeSvg text =
     replace_all GT (str ''&gt;'') (replace_all LT (str ''&lt;'') (replace_all AMP (str ''&amp;'') text))"

text \<open>
  What the three replacements together put for one code unit of the text (lemma
  \<open>escapeSvg_units\<close> below).
\<close>

definition escape_unit :: "16 word \<Rightarrow> jsstring" where
  "escape_unit c =
     (if c = AMP then str ''&amp;'' else if c = LT then str ''&lt;''
      else if c = GT then str ''&gt;'' else [c])"

text \<open>
  The element of one body line, the arrow function of \<^verbatim>\<open>lines.map((l, i) => ...)\<close>:
  \<^verbatim>\<open><text x="20" y="${60 + i * 22}" class="text">${escapeSvg(l)}</text>\<close>
\<close>

definition text_element :: "jsstring \<Rightarrow> nat \<Rightarrow> jsstring" where
  \<open>text_element l i =
     str ''<text x="20" y="'' @ dec (60 + i * 22) @ str ''" class="text">'' @ escapeSvg l @ str ''</text>''\<close>

text \<open>
  The template literal of \<^verbatim>\<open>writeSvg\<close>, with its five substitutions as arguments. In the
  source the literal starts with a line break before \<^verbatim>\<open><svg\<close> and ends with one after
  \<^verbatim>\<open></svg>\<close>; \<open>svg_template\<close> is the text between the two, and \<open>svg_document\<close> below
  puts them around it before \<^verbatim>\<open>.trim()\<close>.
\<close>

definition svg_template :: "jsstring \<Rightarrow> jsstring \<Rightarrow> jsstring \<Rightarrow> jsstring \<Rightarrow> jsstring \<Rightarrow> jsstring" where
  \<open>svg_template height accent title dateStr textLines =
     str ''<svg xmlns="http://www.w3.org/2000/svg" width="900" height="'' @ height @ str ''">'' @ [NL] @
     str ''  <style>'' @ [NL] @
     str ''    .bg { fill: #0d1117; }'' @ [NL] @
     str ''    .title { font: 700 16px monospace; fill: '' @ accent @ str ''; }'' @ [NL] @
     str ''    .text { font: 14px monospace; fill: #c9d1d9; }'' @ [NL] @
     str ''    .date { font: 12px monospace; fill: #8b949e; }'' @ [NL] @
     str ''  </style>'' @ [NL] @
     str ''  <rect width="100%" height="100%" class="bg"/>'' @ [NL] @
     str ''  <text x="20" y="28" class="title">'' @ title @ str ''</text>'' @ [NL] @
     str ''  <text x="880" y="28" text-anchor="end" class="date">'' @ dateStr @ str ''</text>'' @ [NL] @
     str ''  '' @ textLines @ [NL] @
     str ''</svg>''\<close>

text \<open>
  \<^verbatim>\<open>
  function writeSvg(filename, title, content, accent) {
    const lines = wrapText(content);
    const height = 70 + lines.length * 22;
    const textLines = lines
      .map((l, i) => `<text ...>${escapeSvg(l)}</text>`)
      .join("\n");
    const svg = `...`.trim();
    fs.writeFileSync(filename, svg);
  }
  \<close>
  The two variants of the script differ in one constant: the height starts at 70 in the
  first and at 60 in the second, here the argument \<open>base\<close>. The global \<^verbatim>\<open>dateStr\<close> is an
  argument too. \<open>svg_document\<close> is the string \<^verbatim>\<open>svg\<close>; \<open>writeSvg\<close> stores it in the file
  system, a map from file names to contents.
\<close>

definition svg_document :: "nat \<Rightarrow> jsstring \<Rightarrow> jsstring \<Rightarrow> jsstring \<Rightarrow> jsstring \<Rightarrow> jsstring" where
  "svg_document base dateStr title content accent =
     (let lines = wrapText content 90;
          height = base + length lines * 22;
          textLines = join [NL] (map (\<lambda>(l, i). text_element l i) (zip lines [0..<length lines]))
      in trim ([NL] @ svg_template (dec height) accent title dateStr textLines @ [NL]))"

definition writeSvg :: "nat \<Rightarrow> jsstring \<Rightarrow> (jsstring \<rightharpoonup> jsstring) \<Rightarrow> jsstring \<Rightarrow> jsstring \<Rightarrow> jsstring \<Rightarrow> jsstring
    \<Rightarrow> (jsstring \<rightharpoonup> jsstring)" where
  "writeSvg base dateStr files filename title content accent =
     files(filename \<mapsto> svg_document base dateStr title content accent)"

definition writeSvg_v1 :: "jsstring \<Rightarrow> (jsstring \<rightharpoonup> jsstring) \<Rightarrow> jsstring \<Rightarrow> jsstring \<Rightarrow> jsstring \<Rightarrow> jsstring
    \<Rightarrow> (jsstring \<rightharpoonup> jsstring)" where
  "writeSvg_v1 = writeSvg 70"

definition writeSvg_v2 :: "jsstring \<Rightarrow> (jsstring \<rightharpoonup> jsstring) \<Rightarrow> jsstring \<Rightarrow> jsstring \<Rightarrow> jsstring \<Rightarrow> jsstring
    \<Rightarrow> (jsstring \<rightharpoonup> jsstring)" where
  "writeSvg_v2 = writeSvg 60"

subsection \<open>Vocabulary of the escaping claim\<close>

text \<open>
  A string is free of reserved characters when none of \<^verbatim>\<open>&\<close>, \<^verbatim>\<open><\<close>, \<^verbatim>\<open>>\<close> occurs in it.
  In a document, an ampersand is not raw when it begins one of the three entities
  \<^verbatim>\<open>&amp;\<close>, \<^verbatim>\<open>&lt;\<close>, \<^verbatim>\<open>&gt;\<close>.
\<close>

definition reserved_free :: "jsstring \<Rightarrow> bool" where
  "reserved_free s \<longleftrightarrow> AMP \<notin> set s \<and> LT \<notin> set s \<and> GT \<notin> set s"

definition entity_tail :: "jsstring \<Rightarrow> bool" where
  "entity_tail s \<longleftrightarrow>
     take 4 s = str ''amp;'' \<or> take 3 s = str ''lt;'' \<or> take 3 s = str ''gt;''"

fun amp_ok :: "jsstring \<Rightarrow> bool" where
  "amp_ok [] = True"
| "amp_ok (c # cs) = ((c \<noteq> AMP \<or> entity_tail cs) \<and> amp_ok cs)"

text \<open>
  The fixed markup of the template has nine \<^verbatim>\<open><\<close> and nine \<^verbatim>\<open>>\<close>, and the element of
  every body line adds two of each. A document of \<open>n\<close> body lines has no raw reserved
  character when it has exactly these angle brackets and no raw ampersand.
\<close>

definition no_raw_reserved :: "nat \<Rightarrow> jsstring \<Rightarrow> bool" where
  "no_raw_reserved n doc \<longleftrightarrow>
     count_list doc LT = 9 + 2 * n \<and> count_list doc GT = 9 + 2 * n \<and> amp_ok doc"

section \<open>Providers\<close>

text \<open>
  A thrown \<^verbatim>\<open>Error\<close> carries its message. What lies outside the script is the
  environment: the variables of \<^verbatim>\<open>process.env\<close> and, for every remote service, what a
  request to it gives: an error thrown by the call, or the part of the payload that
  the script reads. With optional chaining a missing part reads as \<^verbatim>\<open>undefined\<close>, here
  \<open>None\<close>.
\<close>

datatype error = Error (message: jsstring)

record env =
  GROQ_API_KEY :: "jsstring option"
  GEMINI_API_KEY :: "jsstring option"
  NEWS_API_KEY :: "jsstring option"
  NEWS_API_KEY_2 :: "jsstring option"
  GROQ_MODEL :: "jsstring option"
  groq_chat :: "jsstring \<Rightarrow> error + jsstring option list"
    \<comment> \<open>the stream for a prompt: of every chunk, \<^verbatim>\<open>chunk.choices[0]?.delta?.content\<close>\<close>
  gemini_generateContent :: "jsstring \<Rightarrow> error + jsstring option"
    \<comment> \<open>for a prompt, \<^verbatim>\<open>res.candidates?.[0]?.content?.parts?.[0]?.text\<close>\<close>
  groq_completions :: "jsstring \<Rightarrow> jsstring \<Rightarrow> error + jsstring option"
    \<comment> \<open>for a model and a prompt, \<^verbatim>\<open>data?.output_text\<close>\<close>
  newsapi_top_headlines :: "jsstring \<Rightarrow> error + jsstring option list option"
    \<comment> \<open>for a category, \<^verbatim>\<open>data?.articles\<close>: of every article, its \<^verbatim>\<open>title\<close>\<close>
  gnews_top_headlines :: "jsstring \<Rightarrow> error + jsstring option list option"

text \<open>
  First variant, the streaming client:
  \<^verbatim>\<open>
  async function generateGroq(prompt) {
    if (!groq) throw new Error("No GROQ key");
    const chatCompletion = await groq.chat.completions.create({...});
    let result = "";
    for await (const chunk of chatCompletion) {
      result += chunk.choices[0]?.delta?.content || "";
    }
    if (!result) throw new Error("Empty Groq response");
    return result.replace(/\n/g, " ");
  }
  \<close>
  where \<^verbatim>\<open>groq\<close> is the client when \<^verbatim>\<open>GROQ_API_KEY\<close> is truthy and \<^verbatim>\<open>null\<close> otherwise.
\<close>

definition generateGroq_v1 :: "env \<Rightarrow> jsstring \<Rightarrow> error + jsstring" where
  "generateGroq_v1 e prompt =
     (if \<not> truthy (GROQ_API_KEY e) then Inl (Error (str ''No GROQ key''))
      else case groq_chat e prompt of
        Inl err \<Rightarrow> Inl err
      | Inr chunks \<Rightarrow>
          (let result = concat (map (\<lambda>content. if truthy content then the content else []) chunks)
           in if result = [] then Inl (Error (str ''Empty Groq response''))
              else Inr (replace_all NL [SP] result)))"

text \<open>
  The same text in both variants:
  \<^verbatim>\<open>
  async function generateGemini(prompt) {
    if (!geminiAI) throw new Error("No GEMINI key");
    const res = await geminiAI.models.generateContent({...});
    const text = res.candidates?.[0]?.content?.parts?.[0]?.text?.trim();
    if (!text) throw new Error("Empty Gemini response");
    return text.replace(/\n/g, " ");
  }
  \<close>
\<close>

definition generateGemini :: "env \<Rightarrow> jsstring \<Rightarrow> error + jsstring" where
  "generateGemini e prompt =
     (if \<not> truthy (GEMINI_API_KEY e) then Inl (Error (str ''No GEMINI key''))
      else case gemini_generateContent e prompt of
        Inl err \<Rightarrow> Inl err
      | Inr res \<Rightarrow>
          (let text = map_option trim res
           in if \<not> truthy text then Inl (Error (str ''Empty Gemini response''))
              else Inr (replace_all NL [SP] (the text))))"

text \<open>
  Second variant, the completions endpoint:
  \<^verbatim>\<open>
  async function generateGroq(prompt) {
    if (!process.env.GROQ_API_KEY) throw new Error("No GROQ key");
    const res = await fetch("https://api.groq.ai/v1/completions", {...
        model: process.env.GROQ_MODEL || "llama-3.1-8b-instant", prompt, ...});
    const data = await res.json();
    const text = data?.output_text?.trim();
    if (!text) throw new Error("Empty Groq response");
    return text.replace(/\n/g, " ");
  }
  \<close>
\<close>

definition generateGroq_v2 :: "env \<Rightarrow> jsstring \<Rightarrow> error + jsstring" where
  "generateGroq_v2 e prompt =
     (if \<not> truthy (GROQ_API_KEY e) then Inl (Error (str ''No GROQ key''))
      else case groq_completions e
          (if truthy (GROQ_MODEL e) then the (GROQ_MODEL e) else str ''llama-3.1-8b-instant'') prompt of
        Inl err \<Rightarrow> Inl err
      | Inr data \<Rightarrow>
          (let text = map_option trim data
           in if \<not> truthy text then Inl (Error (str ''Empty Groq response''))
              else Inr (replace_all NL [SP] (the text))))"

section \<open>generateWithFallback\<close>

text \<open>
  What the orchestrator does besides returning: it calls providers and it writes
  warnings. The trace records both in order: every call of a provider function with
  its prompt, and every \<^verbatim>\<open>console.warn\<close> with its arguments.
\<close>

datatype provider = Groq | Gemini

datatype event = Called provider jsstring | Warned "jsstring list"

text \<open>
  First variant:
  \<^verbatim>\<open>
  async function generateWithFallback(prompt) {
    try {
      return await generateGroq(prompt);
    } catch (e) {
      console.warn(" Groq failed:", e.message);
      if (geminiAI) return await generateGemini(prompt);
      throw e;
    }
  }
  \<close>
\<close>

definition generateWithFallback_v1 :: "env \<Rightarrow> jsstring \<Rightarrow> event list \<Rightarrow> (error + jsstring) \<times> event list" where
  "generateWithFallback_v1 env prompt tr =
     (case generateGroq_v1 env prompt of
        Inr text \<Rightarrow> (Inr text, tr @ [Called Groq prompt])
      | Inl e \<Rightarrow>
          (let tr1 = tr @ [Called Groq prompt, Warned [str '' Groq failed:'', message e]]
           in if truthy (GEMINI_API_KEY env)
              then (generateGemini env prompt, tr1 @ [Called Gemini prompt])
              else (Inl e, tr1)))"

text \<open>
  Second variant:
  \<^verbatim>\<open>
  async function generateWithFallback(prompt, localFallback) {
    try {
      return await generateGemini(prompt);
    } catch (e1) {
      console.warn("(warning sign) Gemini failed:", e1.message);
      try {
        return await generateGroq(prompt);
      } catch (e2) {
        console.warn("(warning sign) Groq failed:", e2.message);
        const fallback = localFallback[Math.floor(Math.random() * localFallback.length)];
        console.warn("Using local fallback:", fallback);
        return fallback;
      }
    }
  }
  \<close>
  The warning sign of the source is U+26A0 U+FE0F. \<open>rnd\<close> is the number that
  \<^verbatim>\<open>Math.random()\<close> returns, at least 0 and less than 1; the product with the length is
  taken in the real numbers. The result is a string or \<^verbatim>\<open>undefined\<close>.
\<close>

definition warning_sign :: jsstring where
  "warning_sign = [0x26A0, 0xFE0F]"

definition show_value :: "jsstring option \<Rightarrow> jsstring" where
  "show_value v = (case v of None \<Rightarrow> str ''undefined'' | Some s \<Rightarrow> s)"

definition generateWithFallback_v2 ::
    "env \<Rightarrow> real \<Rightarrow> jsstring \<Rightarrow> jsstring list \<Rightarrow> event list \<Rightarrow> (error + jsstring option) \<times> event list" where
  "generateWithFallback_v2 env rnd prompt localFallback tr =
     (case generateGemini env prompt of
        Inr text \<Rightarrow> (Inr (Some text), tr @ [Called Gemini prompt])
      | Inl e1 \<Rightarrow>
          (let tr1 = tr @ [Called Gemini prompt, Warned [warning_sign @ str '' Gemini failed:'', message e1]]
           in case generateGroq_v2 env prompt of
                Inr text \<Rightarrow> (Inr (Some text), tr1 @ [Called Groq prompt])
              | Inl e2 \<Rightarrow>
                  (let tr2 = tr1 @ [Called Groq prompt, Warned [warning_sign @ str '' Groq failed:'', message e2]];
                       fallback = js_index localFallback \<lfloor>rnd * real (length localFallback)\<rfloor>
                   in (Inr fallback, tr2 @ [Warned [str ''Using local fallback:'', show_value fallback]]))))"

section \<open>News fetchers and the category rotation\<close>

text \<open>
  \<^verbatim>\<open>
  async function fetchNewsAPI(category) {
    if (!process.env.NEWS_API_KEY) throw new Error("No NewsAPI");
    const url = `https://newsapi.org/v2/top-headlines?category=${category}&...`;
    const res = await fetch(url);
    const data = await res.json();
    return data?.articles?.[0]?.title;
  }
  \<close>
  and \<^verbatim>\<open>fetchGNews\<close> likewise with \<^verbatim>\<open>NEWS_API_KEY_2\<close>, the message \<^verbatim>\<open>"No GNews"\<close> and the
  other service. The result is the title or \<^verbatim>\<open>undefined\<close>.
\<close>

definition first_title :: "jsstring option list option \<Rightarrow> jsstring option" where
  "first_title articles =
     (case articles of None \<Rightarrow> None | Some [] \<Rightarrow> None | Some (article # _) \<Rightarrow> article)"

definition fetchNewsAPI :: "env \<Rightarrow> jsstring \<Rightarrow> error + jsstring option" where
  "fetchNewsAPI e category =
     (if \<not> truthy (NEWS_API_KEY e) then Inl (Error (str ''No NewsAPI''))
      else case newsapi_top_headlines e category of
        Inl err \<Rightarrow> Inl err
      | Inr articles \<Rightarrow> Inr (first_title articles))"

definition fetchGNews :: "env \<Rightarrow> jsstring \<Rightarrow> error + jsstring option" where
  "fetchGNews e category =
     (if \<not> truthy (NEWS_API_KEY_2 e) then Inl (Error (str ''No GNews''))
      else case gnews_top_headlines e category of
        Inl err \<Rightarrow> Inl err
      | Inr articles \<Rightarrow> Inr (first_title articles))"

text \<open>
  \<^verbatim>\<open>
  const today = new Date();
  const CATEGORY_ROTATION = ["business", "entertainment", "general", "health",
                             "science", "sports", "technology"];
  const category = CATEGORY_ROTATION[today.getDay()];
  \<close>
  A date is its time value in local time, in milliseconds since the epoch.
  ECMAScript defines \<^verbatim>\<open>getDay\<close> from it: the day number is the time value divided by the
  milliseconds of a day, rounded down, and day 0 was a Thursday.
\<close>

definition msPerDay :: int where
  "msPerDay = 86400000"

definition Day :: "int \<Rightarrow> int" where
  "Day t = t div msPerDay"

definition getDay :: "int \<Rightarrow> int" where
  "getDay t = (Day t + 4) mod 7"

definition CATEGORY_ROTATION :: "jsstring list" where
  "CATEGORY_ROTATION =
     [str ''business'', str ''entertainment'', str ''general'', str ''health'',
      str ''science'', str ''sports'', str ''technology'']"

definition category :: "int \<Rightarrow> jsstring option" where
  "category today = js_index CATEGORY_ROTATION (getDay today)"

section \<open>Example environments\<close>

text \<open>
  An environment in which every key is set, every provider answers \<^verbatim>\<open>A\<close> and both news
  services answer with an empty list of articles. The examples below change single
  fields of it.
\<close>

definition example_env :: env where
  "example_env =
     \<lparr>GROQ_API_KEY = Some (str ''key''), GEMINI_API_KEY = Some (str ''key''),
      NEWS_API_KEY = Some (str ''key''), NEWS_API_KEY_2 = Some (str ''key''), GROQ_MODEL = None,
      groq_chat = (\<lambda>_. Inr [Some (str ''A'')]),
      gemini_generateContent = (\<lambda>_. Inr (Some (str ''A''))),
      groq_completions = (\<lambda>_ _. Inr (Some (str ''A''))),
      newsapi_top_headlines = (\<lambda>_. Inr (Some [])),
      gnews_top_headlines = (\<lambda>_. Inr (Some []))\<rparr>"

section \<open>White space, splitting and trimming\<close>

lemma is_ws_SP: "is_ws SP"
  by (simp add: is_ws_def)

lemma is_ws_NL: "is_ws NL"
  by (simp add: is_ws_def)

lemma split_on_nonempty: "split_on P t \<noteq> []"
  by (induction t) auto

lemma split_on_append_sep: "P x \<Longrightarrow> split_on P (a @ x # b) = split_on P a @ split_on P b"
  by (induction a) (auto simp add: split_on_nonempty)

lemma split_sp_no_space: "SP \<notin> set w \<Longrightarrow> split_sp w = [w]"
  unfolding split_sp_def by (induction w) auto

lemma trim_Nil: "trim [] = []"
  by (simp add: trim_def)

lemma trim_Cons_ws: "is_ws x \<Longrightarrow> trim (x # s) = trim s"
  by (simp add: trim_def)

lemma trim_snoc_ws: "is_ws x \<Longrightarrow> trim (w @ [x]) = trim w"
proof (cases "\<forall>c\<in>set w. is_ws c")
  case True
  assume "is_ws x"
  with True have e: "dropWhile is_ws (w @ [x]) = []" "dropWhile is_ws w = []"
    by simp_all
  show ?thesis by (simp only: trim_def e)
next
  case False
  assume "is_ws x"
  with False show ?thesis by (auto simp add: trim_def dropWhile_append1)
qed

lemma length_trim_le: "length (trim s) \<le> length s"
proof -
  have "length (trim s) = length (dropWhile is_ws (rev (dropWhile is_ws s)))"
    by (simp add: trim_def)
  also have "\<dots> \<le> length (rev (dropWhile is_ws s))"
    by (rule length_dropWhile_le)
  also have "\<dots> \<le> length s"
    by (simp add: length_dropWhile_le)
  finally show ?thesis .
qed

text \<open>A string that neither starts nor ends with white space is its own trim.\<close>

lemma trim_id: "s \<noteq> [] \<Longrightarrow> \<not> is_ws (hd s) \<Longrightarrow> \<not> is_ws (last s) \<Longrightarrow> trim s = s"
proof -
  assume a: "s \<noteq> []" "\<not> is_ws (hd s)" "\<not> is_ws (last s)"
  then have "dropWhile is_ws s = s"
    by (cases s) simp_all
  moreover have "dropWhile is_ws (rev s) = rev s"
    using a by (cases "rev s") (simp_all add: last_rev [symmetric] hd_rev)
  ultimately show ?thesis by (simp add: trim_def)
qed

lemma trim_ends: "trim s \<noteq> [] \<Longrightarrow> \<not> is_ws (hd (trim s)) \<and> \<not> is_ws (last (trim s))"
proof -
  let ?u = "dropWhile is_ws s"
  let ?v = "dropWhile is_ws (rev ?u)"
  assume "trim s \<noteq> []"
  then have v: "?v \<noteq> []" by (simp add: trim_def)
  have u: "?u \<noteq> []"
  proof
    assume e: "?u = []"
    have "?v = []" unfolding e by simp
    with v show False by simp
  qed
  have hv: "\<not> is_ws (hd ?v)" using v by (rule hd_dropWhile)
  have hu: "\<not> is_ws (hd ?u)" using u by (rule hd_dropWhile)
  have "last ?v = last (rev ?u)"
    using u hu by (intro dropWhile_last [of "hd ?u"]) (simp_all add: hd_in_set del: dropWhile_eq_Nil_conv)
  also have "\<dots> = hd ?u" using u by (simp add: last_rev del: dropWhile_eq_Nil_conv)
  finally have "last ?v = hd ?u" .
  with hu have "\<not> is_ws (last ?v)" by simp
  moreover have "hd (trim s) = last ?v" using v by (simp add: trim_def hd_rev del: dropWhile_eq_Nil_conv)
  moreover have "last (trim s) = hd ?v" using v by (simp add: trim_def last_rev del: dropWhile_eq_Nil_conv)
  ultimately show ?thesis using hv by simp
qed

lemma trim_idem: "trim (trim s) = trim s"
proof (cases "trim s = []")
  case True
  then show ?thesis by (simp add: trim_Nil)
next
  case False
  with trim_ends [of s] show ?thesis by (intro trim_id) simp_all
qed

text \<open>What \<open>trim\<close> removes is white space: the rest of the string, after its leading
  white space, is the trimmed string and then white space only.\<close>

lemma trim_decomp: "\<exists>b. (\<forall>x\<in>set b. is_ws x) \<and> dropWhile is_ws s = trim s @ b"
proof -
  let ?u = "dropWhile is_ws s"
  have "?u = rev (dropWhile is_ws (rev ?u)) @ rev (takeWhile is_ws (rev ?u))"
    by (metis rev_append rev_rev_ident takeWhile_dropWhile_id)
  then have "?u = trim s @ rev (takeWhile is_ws (rev ?u))"
    by (simp only: trim_def)
  moreover have "\<forall>x\<in>set (rev (takeWhile is_ws (rev ?u))). is_ws x"
    by (auto dest: set_takeWhileD)
  ultimately show ?thesis by blast
qed

section \<open>The words of a text\<close>

lemma ws_words_Nil: "ws_words [] = []"
  by (simp add: ws_words_def)

lemma ws_words_snoc_ws: "is_ws x \<Longrightarrow> ws_words (a @ [x]) = ws_words a"
  by (simp add: ws_words_def split_on_append_sep)

lemma ws_words_append_sep: "is_ws x \<Longrightarrow> ws_words (a @ x # b) = ws_words a @ ws_words b"
  by (simp add: ws_words_def split_on_append_sep)

lemma ws_words_Cons_ws: "is_ws x \<Longrightarrow> ws_words (x # b) = ws_words b"
  by (simp add: ws_words_def)

lemma ws_words_append:
  assumes "a = [] \<or> is_ws (last a)"
  shows "ws_words (a @ b) = ws_words a @ ws_words b"
proof (cases "a = []")
  case True
  then show ?thesis by (simp add: ws_words_Nil)
next
  case False
  then obtain a' x where a: "a = a' @ [x]"
    by (metis rev_exhaust)
  with assms have x: "is_ws x" by simp
  show ?thesis
    unfolding a using x by (simp add: ws_words_append_sep ws_words_Nil)
qed

lemma ws_words_dropWhile: "ws_words (dropWhile is_ws s) = ws_words s"
  by (induction s) (simp_all add: ws_words_Cons_ws)

lemma ws_words_append_all_ws: "\<forall>x\<in>set b. is_ws x \<Longrightarrow> ws_words (a @ b) = ws_words a"
proof (induction b arbitrary: a)
  case Nil
  show ?case by simp
next
  case (Cons x b)
  have "ws_words ((a @ [x]) @ b) = ws_words (a @ [x])"
    using Cons.prems by (intro Cons.IH) simp
  then show ?case
    using Cons.prems by (simp add: ws_words_snoc_ws)
qed

lemma ws_words_trim: "ws_words (trim s) = ws_words s"
proof -
  obtain b where b: "\<forall>x\<in>set b. is_ws x" "dropWhile is_ws s = trim s @ b"
    using trim_decomp by blast
  have "ws_words s = ws_words (dropWhile is_ws s)"
    by (simp add: ws_words_dropWhile)
  also have "\<dots> = ws_words (trim s)"
    unfolding b(2) by (rule ws_words_append_all_ws [OF b(1)])
  finally show ?thesis by simp
qed

lemma ws_words_join: "ws_words (join [SP] ls) = concat (map ws_words ls)"
  by (induction "[SP]" ls rule: join.induct)
     (simp_all add: ws_words_Nil ws_words_append_sep is_ws_SP)

section \<open>Properties of wrapText\<close>

lemma sp_cat_join: "g \<noteq> [] \<Longrightarrow> sp_cat g = join [SP] g @ [SP]"
  by (induction "[SP]" g rule: join.induct) (simp_all add: sp_cat_def)

lemma trim_sp_cat: "g \<noteq> [] \<Longrightarrow> trim (sp_cat g) = line_of g"
  by (simp add: sp_cat_join line_of_def trim_snoc_ws is_ws_SP)

text \<open>The words of \<^verbatim>\<open>text.split(" ")\<close>, each followed by a space, are the text and a space.\<close>

lemma sp_cat_split: "sp_cat (split_sp t) = t @ [SP]"
proof (induction t)
  case Nil
  show ?case by (simp add: sp_cat_def split_sp_def)
next
  case (Cons c cs)
  obtain w ws where r: "split_on (\<lambda>c. c = SP) cs = w # ws"
    using split_on_nonempty [of "\<lambda>c. c = SP" cs] by (cases "split_on (\<lambda>c. c = SP) cs") auto
  with Cons show ?case
    by (simp add: sp_cat_def split_sp_def)
qed

lemma wrapText_Nil: "wrapText [] n = []"
  by (simp add: wrapText_def split_sp_def trim_def is_ws_SP)

text \<open>The loop only appends to \<^verbatim>\<open>lines\<close>.\<close>

lemma wrap_loop_prefix: "\<exists>more. fst (wrap_loop ws lines line n) = lines @ more"
proof (induction ws arbitrary: lines line)
  case Nil
  show ?case by simp
next
  case (Cons w ws)
  show ?case
  proof (cases "length (line @ w) > n")
    case True
    from Cons.IH [of "lines @ [trim line]" "w @ [SP]"]
    obtain more where "fst (wrap_loop ws (lines @ [trim line]) (w @ [SP]) n) = (lines @ [trim line]) @ more"
      by blast
    with True show ?thesis by simp
  next
    case False
    with Cons.IH [of lines "line @ w @ [SP]"] show ?thesis by simp
  qed
qed

lemma wrapText_first_long:
  assumes "length (hd (split_sp txt)) > n"
  shows "\<exists>rest. wrapText txt n = [] # rest"
proof -
  obtain w ws where sp: "split_sp txt = w # ws"
    using split_on_nonempty [of "\<lambda>c. c = SP" "txt"] by (cases "split_sp txt") (auto simp add: split_sp_def)
  with assms have long: "length w > n" by simp
  obtain more where m: "fst (wrap_loop ws [[]] (w @ [SP]) n) = [[]] @ more"
    using wrap_loop_prefix [of ws "[[]]" "w @ [SP]" n] by blast
  obtain ls l where r: "wrap_loop ws [[]] (w @ [SP]) n = (ls, l)"
    by (cases "wrap_loop ws [[]] (w @ [SP]) n") auto
  with m have "ls = [] # more" by simp
  with sp long r show ?thesis
    by (simp add: wrapText_def trim_Nil)
qed

lemma wrapText_single_long:
  assumes "SP \<notin> set word" "trim word = word" "length word > n"
  shows "wrapText word n = [[], word]"
  using assms
  by (simp add: wrapText_def split_sp_no_space trim_Nil trim_snoc_ws is_ws_SP) auto

text \<open>
  Invariant of the loop, lengths: when no word is longer than the width, every pushed
  line and the trim of the current line fit the width.
\<close>

lemma wrap_loop_lengths:
  assumes "\<forall>w\<in>set ws. length w \<le> n" "\<forall>l\<in>set lines. length l \<le> n" "length (trim line) \<le> n"
  shows "(\<forall>l\<in>set (fst (wrap_loop ws lines line n)). length l \<le> n) \<and>
         length (trim (snd (wrap_loop ws lines line n))) \<le> n"
  using assms
proof (induction ws arbitrary: lines line)
  case Nil
  then show ?case by simp
next
  case (Cons w ws)
  have wn: "length w \<le> n" and rest: "\<forall>w\<in>set ws. length w \<le> n"
    using Cons.prems(1) by simp_all
  show ?case
  proof (cases "length (line @ w) > n")
    case True
    have step: "wrap_loop (w # ws) lines line n = wrap_loop ws (lines @ [trim line]) (w @ [SP]) n"
      using True by simp
    have a: "length (trim (w @ [SP])) \<le> n"
      using wn length_trim_le [of w] by (simp add: trim_snoc_ws is_ws_SP)
    have b: "\<forall>l\<in>set (lines @ [trim line]). length l \<le> n"
      using Cons.prems(2,3) by simp
    show ?thesis
      unfolding step by (rule Cons.IH [OF rest b a])
  next
    case False
    have step: "wrap_loop (w # ws) lines line n = wrap_loop ws lines (line @ w @ [SP]) n"
      using False by simp
    have "trim ((line @ w) @ [SP]) = trim (line @ w)"
      by (rule trim_snoc_ws [OF is_ws_SP])
    then have "length (trim (line @ w @ [SP])) \<le> length (line @ w)"
      using length_trim_le [of "line @ w"] by simp
    then have a: "length (trim (line @ w @ [SP])) \<le> n"
      using False by simp
    show ?thesis
      unfolding step by (rule Cons.IH [OF rest Cons.prems(2) a])
  qed
qed

lemma wrapText_lengths:
  assumes "\<forall>w\<in>set (split_sp txt). length w \<le> n"
  shows "\<forall>l\<in>set (wrapText txt n). length l \<le> n"
proof -
  obtain ls l where r: "wrap_loop (split_sp txt) [] [] n = (ls, l)"
    by (cases "wrap_loop (split_sp txt) [] [] n") auto
  have "(\<forall>l\<in>set (fst (wrap_loop (split_sp txt) [] [] n)). length l \<le> n) \<and>
         length (trim (snd (wrap_loop (split_sp txt) [] [] n))) \<le> n"
    using assms by (intro wrap_loop_lengths) (simp_all add: trim_Nil)
  with r show ?thesis by (auto simp add: wrapText_def)
qed

text \<open>
  Invariant of the loop, groups: while \<^verbatim>\<open>line\<close> holds the words \<open>cur\<close>, the loop cuts
  \<open>cur\<close> and the remaining words into consecutive groups, pushes the line of every
  group but the last and leaves the last group in \<^verbatim>\<open>line\<close>. The first group can only be
  empty when the first word is too long.
\<close>

lemma wrap_loop_groups:
  assumes "cur = [] \<longrightarrow> (\<forall>w\<in>set (take 1 ws). length w \<le> n)"
  shows "\<exists>gs g. wrap_loop ws lines (sp_cat cur) n = (lines @ map line_of gs, sp_cat g) \<and>
           concat gs @ g = cur @ ws \<and> [] \<notin> set gs \<and> (cur @ ws \<noteq> [] \<longrightarrow> g \<noteq> [])"
  using assms
proof (induction ws arbitrary: lines cur)
  case Nil
  have "wrap_loop [] lines (sp_cat cur) n = (lines @ map line_of [], sp_cat cur) \<and>
           concat [] @ cur = cur @ [] \<and> [] \<notin> set ([] :: jsstring list list) \<and> (cur @ [] \<noteq> [] \<longrightarrow> cur \<noteq> [])"
    by simp
  then show ?case by blast
next
  case (Cons w ws)
  show ?case
  proof (cases "length (sp_cat cur @ w) > n")
    case True
    with Cons.prems have cur: "cur \<noteq> []" by (auto simp add: sp_cat_def)
    have step: "wrap_loop (w # ws) lines (sp_cat cur) n =
                wrap_loop ws (lines @ [line_of cur]) (sp_cat [w]) n"
      using True cur by (simp add: trim_sp_cat) (simp add: sp_cat_def)
    from Cons.IH [of "[w]" "lines @ [line_of cur]"]
    obtain gs g where g: "wrap_loop ws (lines @ [line_of cur]) (sp_cat [w]) n
            = ((lines @ [line_of cur]) @ map line_of gs, sp_cat g)"
        "concat gs @ g = [w] @ ws" "[] \<notin> set gs" "g \<noteq> []"
      by auto
    have "wrap_loop (w # ws) lines (sp_cat cur) n = (lines @ map line_of (cur # gs), sp_cat g) \<and>
           concat (cur # gs) @ g = cur @ w # ws \<and> [] \<notin> set (cur # gs) \<and> (cur @ w # ws \<noteq> [] \<longrightarrow> g \<noteq> [])"
      using step g cur by simp
    then show ?thesis by blast
  next
    case False
    have step: "wrap_loop (w # ws) lines (sp_cat cur) n =
                wrap_loop ws lines (sp_cat (cur @ [w])) n"
      using False by (simp add: sp_cat_def)
    from Cons.IH [of "cur @ [w]" lines]
    obtain gs g where g: "wrap_loop ws lines (sp_cat (cur @ [w])) n = (lines @ map line_of gs, sp_cat g)"
        "concat gs @ g = (cur @ [w]) @ ws" "[] \<notin> set gs" "g \<noteq> []"
      by auto
    have "wrap_loop (w # ws) lines (sp_cat cur) n = (lines @ map line_of gs, sp_cat g) \<and>
           concat gs @ g = cur @ w # ws \<and> [] \<notin> set gs \<and> (cur @ w # ws \<noteq> [] \<longrightarrow> g \<noteq> [])"
      using step g by simp
    then show ?thesis by blast
  qed
qed

lemma wrapText_groups:
  assumes "length (hd (split_sp txt)) \<le> n"
  shows "\<exists>gs g. concat (gs @ [g]) = split_sp txt \<and> [] \<notin> set (gs @ [g]) \<and>
           wrapText txt n = map line_of gs @ (if line_of g = [] then [] else [line_of g])"
proof -
  have ne: "split_sp txt \<noteq> []"
    by (simp add: split_sp_def split_on_nonempty)
  then have "\<forall>w\<in>set (take 1 (split_sp txt)). length w \<le> n"
    using assms by (cases "split_sp txt") simp_all
  then have "([] :: jsstring list) = [] \<longrightarrow> (\<forall>w\<in>set (take 1 (split_sp txt)). length w \<le> n)"
    by simp
  from wrap_loop_groups [OF this, of "[]"]
  obtain gs g where g: "wrap_loop (split_sp txt) [] [] n = (map line_of gs, sp_cat g)"
     "concat gs @ g = split_sp txt" "[] \<notin> set gs" "g \<noteq> []"
    using ne by (auto simp add: sp_cat_def)
  have "concat (gs @ [g]) = split_sp txt \<and> [] \<notin> set (gs @ [g]) \<and>
           wrapText txt n = map line_of gs @ (if line_of g = [] then [] else [line_of g])"
    using g by (simp add: wrapText_def trim_sp_cat)
  then show ?thesis by blast
qed

text \<open>
  Invariant of the loop, words: as long as \<^verbatim>\<open>line\<close> is empty or ends with white space,
  the words of the pushed lines and of \<^verbatim>\<open>line\<close> are, in order, the words already there
  and the words still to come.
\<close>

lemma wrap_loop_words:
  assumes "line = [] \<or> is_ws (last line)"
  shows "concat (map ws_words (fst (wrap_loop ws lines line n))) @ ws_words (snd (wrap_loop ws lines line n))
         = concat (map ws_words lines) @ ws_words (line @ sp_cat ws)"
  using assms
proof (induction ws arbitrary: lines line)
  case Nil
  show ?case by (simp add: sp_cat_def)
next
  case (Cons w ws)
  show ?case
  proof (cases "length (line @ w) > n")
    case True
    have step: "wrap_loop (w # ws) lines line n = wrap_loop ws (lines @ [trim line]) (w @ [SP]) n"
      using True by simp
    have "concat (map ws_words (lines @ [trim line])) @ ws_words ((w @ [SP]) @ sp_cat ws)
        = concat (map ws_words lines) @ ws_words line @ ws_words (sp_cat (w # ws))"
      by (simp add: ws_words_trim sp_cat_def)
    also have "\<dots> = concat (map ws_words lines) @ ws_words (line @ sp_cat (w # ws))"
      using Cons.prems by (simp add: ws_words_append)
    finally show ?thesis
      unfolding step using Cons.IH [of "w @ [SP]" "lines @ [trim line]"] by (simp add: is_ws_SP)
  next
    case False
    have step: "wrap_loop (w # ws) lines line n = wrap_loop ws lines (line @ w @ [SP]) n"
      using False by simp
    show ?thesis
      unfolding step using Cons.IH [of "line @ w @ [SP]" lines] by (simp add: is_ws_SP sp_cat_def)
  qed
qed

lemma wrapText_words: "concat (map ws_words (wrapText t n)) = ws_words t"
proof -
  obtain ls l where r: "wrap_loop (split_sp t) [] [] n = (ls, l)"
    by (cases "wrap_loop (split_sp t) [] [] n") auto
  have "concat (map ws_words ls) @ ws_words l = ws_words (sp_cat (split_sp t))"
    using wrap_loop_words [of "[]" "split_sp t" "[]" n] r by simp
  also have "\<dots> = ws_words t"
    by (simp add: sp_cat_split ws_words_snoc_ws is_ws_SP)
  finally have e: "concat (map ws_words ls) @ ws_words l = ws_words t" .
  have "concat (map ws_words (wrapText t n)) = concat (map ws_words ls) @ ws_words (trim l)"
    using r ws_words_Nil by (simp add: wrapText_def)
  with e show ?thesis by (simp add: ws_words_trim)
qed

text \<open>
  Joining: \<^verbatim>\<open>split\<close> and \<^verbatim>\<open>join\<close> with the same separator are inverse, and joining the
  joined groups is joining all their words.
\<close>

lemma join_split_sp: "join [SP] (split_sp t) = t"
proof -
  have "split_sp t \<noteq> []" by (simp add: split_sp_def split_on_nonempty)
  then have "join [SP] (split_sp t) @ [SP] = t @ [SP]"
    using sp_cat_join [of "split_sp t"] sp_cat_split [of t] by simp
  then show ?thesis by simp
qed

lemma join_append:
  "xs \<noteq> [] \<Longrightarrow> ys \<noteq> [] \<Longrightarrow> join sep (xs @ ys) = join sep xs @ sep @ join sep ys"
proof (induction sep xs rule: join.induct)
  case (1 sep)
  then show ?case by simp
next
  case (2 sep x)
  then show ?case by (cases ys) simp_all
next
  case (3 sep x y zs)
  then show ?case by simp
qed

lemma join_Cons: "ys \<noteq> [] \<Longrightarrow> join sep (x # ys) = x @ sep @ join sep ys"
  by (cases ys) simp_all

lemma join_concat:
  "[] \<notin> set gs \<Longrightarrow> join sep (map (join sep) gs) = join sep (concat gs)"
proof (induction gs)
  case Nil
  show ?case by simp
next
  case (Cons g gs)
  show ?case
  proof (cases "gs = []")
    case True
    then show ?thesis by simp
  next
    case False
    with Cons.prems have ne: "concat gs \<noteq> []" "g \<noteq> []"
      by (cases gs; auto)+
    have "join sep (map (join sep) (g # gs)) = join sep g @ sep @ join sep (map (join sep) gs)"
      using False by (simp add: join_Cons)
    also have "\<dots> = join sep g @ sep @ join sep (concat gs)"
      using Cons by simp
    also have "\<dots> = join sep (concat (g # gs))"
      using ne by (simp add: join_append)
    finally show ?thesis .
  qed
qed

lemma join_ends:
  assumes "g \<noteq> []" "\<forall>w\<in>set g. w \<noteq> []"
  shows "join sep g \<noteq> [] \<and> hd (join sep g) = hd (hd g) \<and> last (join sep g) = last (last g)"
  using assms
proof (induction sep g rule: join.induct)
  case (1 sep)
  then show ?case by simp
next
  case (2 sep x)
  then show ?case by simp
next
  case (3 sep x y ys)
  then show ?case by simp
qed

text \<open>A group of non-empty words without white space at their ends loses nothing to \<open>trim\<close>.\<close>

lemma line_of_trimmed_words:
  assumes "g \<noteq> []" "\<forall>w\<in>set g. w \<noteq> [] \<and> trim w = w"
  shows "line_of g = join [SP] g \<and> line_of g \<noteq> []"
proof -
  have ne: "\<forall>w\<in>set g. w \<noteq> []" using assms(2) by simp
  from join_ends [OF assms(1) ne, of "[SP]"]
  have j: "join [SP] g \<noteq> []" "hd (join [SP] g) = hd (hd g)" "last (join [SP] g) = last (last g)"
    by simp_all
  have "hd g \<in> set g" "last g \<in> set g" using assms(1) by simp_all
  with assms(2) have "hd g \<noteq> [] \<and> trim (hd g) = hd g" "last g \<noteq> [] \<and> trim (last g) = last g"
    by blast+
  then have "\<not> is_ws (hd (hd g))" "\<not> is_ws (last (last g))"
    using trim_ends [of "hd g"] trim_ends [of "last g"] by simp_all
  with j have "trim (join [SP] g) = join [SP] g"
    by (intro trim_id) simp_all
  with j(1) show ?thesis by (simp add: line_of_def)
qed

lemma wrapText_rejoin_exact:
  assumes "\<forall>w\<in>set (split_sp txt). w \<noteq> [] \<and> trim w = w" "length (hd (split_sp txt)) \<le> n"
  shows "join [SP] (wrapText txt n) = txt"
proof -
  from wrapText_groups [OF assms(2)]
  obtain gs g where g: "concat (gs @ [g]) = split_sp txt" "[] \<notin> set (gs @ [g])"
      "wrapText txt n = map line_of gs @ (if line_of g = [] then [] else [line_of g])"
    by blast
  have words: "\<forall>w\<in>set h. w \<noteq> [] \<and> trim w = w" if "h \<in> set (gs @ [g])" for h
  proof -
    from that have "set h \<subseteq> set (concat (gs @ [g]))" by auto
    with assms(1) g(1) show ?thesis by auto
  qed
  have lines: "line_of h = join [SP] h \<and> line_of h \<noteq> []" if "h \<in> set (gs @ [g])" for h
    using that g(2) words [OF that] by (intro line_of_trimmed_words) auto
  have "g \<in> set (gs @ [g])" by simp
  from lines [OF this] have "line_of g \<noteq> []" by blast
  with g(3) have "wrapText txt n = map line_of (gs @ [g])" by simp
  also have "\<dots> = map (join [SP]) (gs @ [g])"
    using lines by (intro map_cong) simp_all
  finally have "join [SP] (wrapText txt n) = join [SP] (map (join [SP]) (gs @ [g]))"
    by simp
  also have "\<dots> = join [SP] (concat (gs @ [g]))"
    using g(2) by (rule join_concat)
  finally have "join [SP] (wrapText txt n) = join [SP] (concat (gs @ [g]))" .
  then show ?thesis by (simp only: g(1) join_split_sp)
qed

subsection \<open>The claims about wrapText\<close>

text \<open>
  C1, as the specification states it, fails: rejoined with single spaces, the lines of
  \<^verbatim>\<open>"a  b"\<close> (two spaces) are \<^verbatim>\<open>"a  b"\<close> again, not the single-spaced \<^verbatim>\<open>"a b"\<close>. Spaces
  in a row give empty words, and inside a line the loop keeps them.
\<close>

theorem wrapText_rejoin_not_normalized:
  "join [SP] (wrapText (str ''a  b'') 90) \<noteq> normalize (str ''a  b'')"
  by (simp add: wrapText_def split_sp_def normalize_def ws_words_def str_def trim_def is_ws_def)

text \<open>
  C1, amended: for every input text and every width, the lines rejoined with single
  spaces and the input have the same normal form: the same words in the same order.
  The rejoined text itself need not be single-spaced. It is the input itself when every
  word of the input (every piece between two single spaces) is non-empty and has no
  white space at its ends, and the first word fits the width.
\<close>

theorem wrapText_rejoin_normalized:
  "normalize (join [SP] (wrapText txt maxChars)) = normalize txt \<and>
   ((\<forall>w\<in>set (split_sp txt). w \<noteq> [] \<and> trim w = w) \<and> length (hd (split_sp txt)) \<le> maxChars \<longrightarrow>
      join [SP] (wrapText txt maxChars) = txt)"
  using wrapText_rejoin_exact [of "txt" maxChars]
  by (simp add: normalize_def ws_words_join wrapText_words)

theorem wrapText_rejoin_normalized_witness:
  "normalize (join [SP] (wrapText (str ''a  b'') 90)) = str ''a b'' \<and>
   join [SP] (wrapText (str ''ab cd ef'') 5) = str ''ab cd ef''"
proof -
  have "normalize (join [SP] (wrapText (str ''a  b'') 90)) = str ''a b''"
    using wrapText_rejoin_normalized [of "str ''a  b''" 90]
    by (simp add: normalize_def ws_words_def str_def is_ws_def)
  moreover have "join [SP] (wrapText (str ''ab cd ef'') 5) = str ''ab cd ef''"
    using wrapText_rejoin_normalized [of "str ''ab cd ef''" 5]
    by (simp add: split_sp_def str_def trim_def is_ws_def)
  ultimately show ?thesis by simp
qed

text \<open>
  C7: when no word of the text (no piece between two single spaces) is longer than the
  width, every returned line fits the width, and it has no white space at its ends
  that the count could miss; and no word is split: the words fall into consecutive
  non-empty groups, one per line, every line is the words of its group joined by single
  spaces and trimmed, and only the line of the last group is left out when it is empty.
\<close>

theorem wrapText_fits_and_keeps_words:
  assumes "\<forall>w\<in>set (split_sp txt). length w \<le> maxChars"
  shows "(\<forall>l\<in>set (wrapText txt maxChars). length l \<le> maxChars \<and> trim l = l) \<and>
         (\<exists>gs g. concat (gs @ [g]) = split_sp txt \<and> [] \<notin> set (gs @ [g]) \<and>
            wrapText txt maxChars = map line_of gs @ (if line_of g = [] then [] else [line_of g]))"
proof -
  have "split_sp txt \<noteq> []"
    by (simp add: split_sp_def split_on_nonempty)
  then have "length (hd (split_sp txt)) \<le> maxChars"
    using assms by simp
  from wrapText_groups [OF this]
  obtain gs g where g: "concat (gs @ [g]) = split_sp txt" "[] \<notin> set (gs @ [g])"
      "wrapText txt maxChars = map line_of gs @ (if line_of g = [] then [] else [line_of g])"
    by blast
  have "trim l = l" if "l \<in> set (wrapText txt maxChars)" for l
  proof -
    from that g(3) obtain h where "l = line_of h"
      by (auto split: if_splits)
    then show ?thesis by (simp add: line_of_def trim_idem)
  qed
  with wrapText_lengths [OF assms] g show ?thesis by blast
qed

theorem wrapText_fits_and_keeps_words_witness:
  "list_all (\<lambda>w. length w \<le> 5) (split_sp (str ''ab cd ef'')) \<and>
   wrapText (str ''ab cd ef'') 5 = [str ''ab cd'', str ''ef''] \<and>
   list_all (\<lambda>l. length l \<le> 5 \<and> trim l = l) (wrapText (str ''ab cd ef'') 5)"
proof -
  have h: "\<forall>w\<in>set (split_sp (str ''ab cd ef'')). length w \<le> 5"
    by (simp add: split_sp_def str_def)
  have "wrapText (str ''ab cd ef'') 5 = [str ''ab cd'', str ''ef'']"
    by (simp add: wrapText_def split_sp_def str_def trim_def is_ws_def)
  with h wrapText_fits_and_keeps_words [OF h] show ?thesis
    by (simp add: list_all_iff)
qed

text \<open>
  C9: \<open>wrapText\<close> applied to the empty string returns the empty sequence of lines,
  whatever the width.
\<close>

theorem wrapText_empty: "wrapText [] maxChars = []"
  by (rule wrapText_Nil)

theorem wrapText_empty_witness: "wrapText (str []) 90 = []"
  using wrapText_empty [of 90] by (simp add: str_def)

text \<open>
  C10: when the first word of the text is longer than the width, the first line that
  \<open>wrapText\<close> returns is the empty string; and for a single word longer than the width
  (no space in it, no white space at its ends) the result is the empty line and then
  the word.
\<close>

theorem wrapText_long_first_word:
  "(length (hd (split_sp txt)) > maxChars \<longrightarrow> (\<exists>rest. wrapText txt maxChars = [] # rest)) \<and>
   (SP \<notin> set word \<and> trim word = word \<and> length word > maxChars \<longrightarrow>
      wrapText word maxChars = [[], word])"
  using wrapText_first_long [of maxChars "txt"] wrapText_single_long [of word maxChars]
  by blast

theorem wrapText_long_first_word_witness:
  "(\<exists>rest. wrapText (str ''abcdef gh'') 3 = [] # rest) \<and>
   wrapText (str ''abcdef'') 3 = [[], str ''abcdef'']"
  using wrapText_long_first_word [of 3 "str ''abcdef gh''" "str ''abcdef''"]
  by (simp add: str_def trim_def is_ws_def split_sp_def)

section \<open>Properties of escapeSvg and writeSvg\<close>

text \<open>The three replacements in a row come to one pass over the code units.\<close>

lemma escapeSvg_units: "escapeSvg s = concat (map escape_unit s)"
  by (induction s) (simp_all add: escapeSvg_def replace_all_def escape_unit_def str_def)

lemma escapeSvg_no_LT: "LT \<notin> set (escapeSvg s)"
  by (auto simp add: escapeSvg_units escape_unit_def str_def split: if_splits)

lemma escapeSvg_no_GT: "GT \<notin> set (escapeSvg s)"
  by (auto simp add: escapeSvg_units escape_unit_def str_def split: if_splits)

lemma entity_tail_append: "entity_tail cs \<Longrightarrow> entity_tail (cs @ b)"
  unfolding entity_tail_def
proof (elim disjE)
  assume a: "take 4 cs = str ''amp;''"
  then have "length (take 4 cs) = 4" by (simp add: str_def)
  then have "4 \<le> length cs" by simp
  with a show "take 4 (cs @ b) = str ''amp;'' \<or> take 3 (cs @ b) = str ''lt;'' \<or> take 3 (cs @ b) = str ''gt;''"
    by simp
next
  assume a: "take 3 cs = str ''lt;''"
  then have "length (take 3 cs) = 3" by (simp add: str_def)
  then have "3 \<le> length cs" by simp
  with a show "take 4 (cs @ b) = str ''amp;'' \<or> take 3 (cs @ b) = str ''lt;'' \<or> take 3 (cs @ b) = str ''gt;''"
    by simp
next
  assume a: "take 3 cs = str ''gt;''"
  then have "length (take 3 cs) = 3" by (simp add: str_def)
  then have "3 \<le> length cs" by simp
  with a show "take 4 (cs @ b) = str ''amp;'' \<or> take 3 (cs @ b) = str ''lt;'' \<or> take 3 (cs @ b) = str ''gt;''"
    by simp
qed

lemma amp_ok_append: "amp_ok a \<Longrightarrow> amp_ok b \<Longrightarrow> amp_ok (a @ b)"
  by (induction a) (auto simp add: entity_tail_append)

lemma amp_ok_no_amp: "AMP \<notin> set s \<Longrightarrow> amp_ok s"
  by (induction s) auto

lemma amp_ok_escape_unit: "amp_ok (escape_unit c @ rest) = amp_ok rest"
  by (simp add: escape_unit_def str_def entity_tail_def)

lemma amp_ok_escapeSvg: "amp_ok (escapeSvg s)"
  unfolding escapeSvg_units by (induction s) (simp_all add: amp_ok_escape_unit)

lemma dec_digits: "set (dec n) \<subseteq> set (str ''0123456789'')"
proof (induction n rule: dec.induct)
  case (1 n)
  show ?case
  proof (cases "n < 10")
    case True
    then have "str ''0123456789'' ! n \<in> set (str ''0123456789'')"
      by (intro nth_mem) (simp add: str_def)
    with True show ?thesis by (subst dec.simps) simp
  next
    case False
    have "str ''0123456789'' ! (n mod 10) \<in> set (str ''0123456789'')"
      by (intro nth_mem) (simp add: str_def)
    with False 1 show ?thesis by (subst dec.simps) simp
  qed
qed

lemma dec_reserved_free: "reserved_free (dec n)"
  using dec_digits [of n] by (auto simp add: reserved_free_def str_def)

text \<open>\<^verbatim>\<open>.trim()\<close> takes the two line breaks off the template and nothing else.\<close>

lemma svg_template_ends:
  "svg_template h a t d ls \<noteq> [] \<and> hd (svg_template h a t d ls) = LT \<and> last (svg_template h a t d ls) = GT"
  by (simp add: svg_template_def str_def)

lemma svg_document_eq:
  "svg_document base d t c a =
     svg_template (dec (base + length (wrapText c 90) * 22)) a t d
       (join [NL] (map (\<lambda>(l, i). text_element l i) (zip (wrapText c 90) [0..<length (wrapText c 90)])))"
proof -
  have "trim ([NL] @ svg_template h a t d ls @ [NL]) = svg_template h a t d ls" for h ls
  proof -
    have "trim ([NL] @ svg_template h a t d ls @ [NL]) = trim (svg_template h a t d ls @ [NL])"
      using is_ws_NL by (simp add: trim_Cons_ws)
    also have "\<dots> = trim (svg_template h a t d ls)"
      using is_ws_NL by (rule trim_snoc_ws)
    also have "\<dots> = svg_template h a t d ls"
      using svg_template_ends [of h a t d ls] by (intro trim_id) (simp_all add: is_ws_def)
    finally show ?thesis .
  qed
  then show ?thesis by (simp add: svg_document_def Let_def)
qed

text \<open>Counting one code unit in the document: the fixed markup and the five substitutions.\<close>

lemma count_template:
  "count_list (svg_template h a t d ls) c =
     count_list (svg_template [] [] [] [] []) c
     + count_list h c + count_list a c + count_list t c + count_list d c + count_list ls c"
  by (simp add: svg_template_def)

lemma count_template_LT: "count_list (svg_template [] [] [] [] []) LT = 9"
  by (simp add: svg_template_def str_def)

lemma count_template_GT: "count_list (svg_template [] [] [] [] []) GT = 9"
  by (simp add: svg_template_def str_def)

lemma count_join_NL:
  "c \<noteq> NL \<Longrightarrow> count_list (join [NL] xs) c = sum_list (map (\<lambda>x. count_list x c) xs)"
  by (induction "[NL]" xs rule: join.induct) simp_all

lemma sum_list_all_equal: "\<forall>x\<in>set xs. f x = k \<Longrightarrow> sum_list (map f xs) = length xs * k"
  by (induction xs) simp_all

lemma count_absent: "c \<notin> set s \<Longrightarrow> count_list s c = 0"
  by (simp add: count_list_0_iff)

lemma count_text_element_LT: "count_list (text_element l i) LT = 2"
  using dec_reserved_free [of "60 + i * 22"] escapeSvg_no_LT [of l]
  by (simp add: text_element_def reserved_free_def count_absent) (simp add: str_def)

lemma count_text_element_GT: "count_list (text_element l i) GT = 2"
  using dec_reserved_free [of "60 + i * 22"] escapeSvg_no_GT [of l]
  by (simp add: text_element_def reserved_free_def count_absent) (simp add: str_def)

lemma count_document:
  assumes "c = LT \<or> c = GT"
  shows "count_list (svg_document base d t content a) c =
     9 + 2 * length (wrapText content 90) + count_list a c + count_list t c + count_list d c"
proof -
  let ?lines = "wrapText content 90"
  let ?els = "map (\<lambda>(l, i). text_element l i) (zip ?lines [0..<length ?lines])"
  have els: "\<forall>x\<in>set ?els. count_list x c = 2"
    using assms by (auto simp add: count_text_element_LT count_text_element_GT)
  have "c \<noteq> NL" using assms by auto
  then have "count_list (join [NL] ?els) c = sum_list (map (\<lambda>x. count_list x c) ?els)"
    by (rule count_join_NL)
  also have "\<dots> = length ?els * 2"
    using els by (rule sum_list_all_equal)
  finally have body: "count_list (join [NL] ?els) c = 2 * length ?lines"
    by simp
  have h: "count_list (dec (base + length ?lines * 22)) c = 0"
    using dec_reserved_free [of "base + length ?lines * 22"] assms
    by (auto simp add: reserved_free_def count_absent)
  have fixed: "count_list (svg_template [] [] [] [] []) c = 9"
    using assms count_template_LT count_template_GT by auto
  have "count_list (svg_document base d t content a) c =
      count_list (svg_template [] [] [] [] []) c
      + count_list (dec (base + length ?lines * 22)) c + count_list a c + count_list t c + count_list d c
      + count_list (join [NL] ?els) c"
    unfolding svg_document_eq by (rule count_template)
  also have "\<dots> = 9 + 0 + count_list a c + count_list t c + count_list d c + 2 * length ?lines"
    by (simp only: body h fixed)
  finally show ?thesis by simp
qed

text \<open>No raw ampersand: the markup has none, and every body line is escaped.\<close>

lemma amp_ok_text_element: "amp_ok (text_element l i)"
proof -
  have "amp_ok (dec (60 + i * 22))"
    using dec_reserved_free [of "60 + i * 22"] by (simp add: reserved_free_def amp_ok_no_amp)
  moreover have "amp_ok (str ''<text x=\"20\" y=\"'')" "amp_ok (str ''\" class=\"text\">'')" "amp_ok (str ''</text>'')"
    by (simp_all add: str_def)
  ultimately show ?thesis
    by (simp add: text_element_def amp_ok_append amp_ok_escapeSvg)
qed

lemma amp_ok_join_NL: "\<forall>x\<in>set xs. amp_ok x \<Longrightarrow> amp_ok (join [NL] xs)"
  by (induction "[NL]" xs rule: join.induct) (simp_all add: amp_ok_append)

lemma amp_ok_template:
  assumes "amp_ok h" "amp_ok a" "amp_ok t" "amp_ok d" "amp_ok ls"
  shows "amp_ok (svg_template h a t d ls)"
proof -
  have lit: "amp_ok (str s)" if "AMP \<notin> set (str s)" for s
    using that by (rule amp_ok_no_amp)
  have nl: "amp_ok [NL]" by simp
  show ?thesis
    unfolding svg_template_def
    by (intro amp_ok_append assms nl lit) (simp_all add: str_def)
qed

lemma amp_ok_document:
  assumes "amp_ok t" "amp_ok a" "amp_ok d"
  shows "amp_ok (svg_document base d t content a)"
proof -
  have "amp_ok (dec n)" for n
    using dec_reserved_free [of n] by (simp add: reserved_free_def amp_ok_no_amp)
  moreover have "amp_ok (join [NL] (map (\<lambda>(l, i). text_element l i) (zip ls ns)))" for ls ns
    by (intro amp_ok_join_NL) (auto simp add: amp_ok_text_element)
  ultimately show ?thesis
    unfolding svg_document_eq using assms by (intro amp_ok_template)
qed

subsection \<open>The claim about writeSvg\<close>

text \<open>
  C2, as the specification states it, fails: \<open>writeSvg\<close> embeds the title as it is. With
  the title \<^verbatim>\<open><\<close> and an empty body the document has ten \<^verbatim>\<open><\<close>, one more than its
  markup.
\<close>

theorem writeSvg_title_not_escaped:
  "\<not> no_raw_reserved (length (wrapText [] 90))
     (the (writeSvg_v1 (str ''2026-01-01'') Map.empty (str ''joke.svg'') (str ''<'') []
             (str ''#3fb950'') (str ''joke.svg'')))"
proof -
  have "count_list (svg_document 70 (str ''2026-01-01'') (str ''<'') [] (str ''#3fb950'')) LT = 10"
    by (simp add: count_document wrapText_Nil) (simp add: str_def)
  then show ?thesis
    by (simp add: writeSvg_v1_def writeSvg_def no_raw_reserved_def wrapText_Nil)
qed

text \<open>
  C2, amended: for every body content, whenever the title, the accent and the date
  stamp are free of reserved characters (as the titles, colours and dates that the
  script passes are), the document that \<open>writeSvg\<close> stores has no raw reserved
  character outside its markup: its \<^verbatim>\<open><\<close> and \<^verbatim>\<open>>\<close> are exactly those of the template
  and of the elements of the body lines, and every \<^verbatim>\<open>&\<close> in it begins \<^verbatim>\<open>&amp;\<close>, \<^verbatim>\<open>&lt;\<close>
  or \<^verbatim>\<open>&gt;\<close>. Only the body lines are escaped.
\<close>

theorem writeSvg_body_escaped:
  assumes "reserved_free title" "reserved_free accent" "reserved_free dateStr"
  shows "\<exists>doc. writeSvg base dateStr files filename title content accent filename = Some doc \<and>
           no_raw_reserved (length (wrapText content 90)) doc"
proof -
  have "amp_ok (svg_document base dateStr title content accent)"
    using assms by (intro amp_ok_document amp_ok_no_amp) (simp_all add: reserved_free_def)
  moreover have "count_list (svg_document base dateStr title content accent) LT
      = 9 + 2 * length (wrapText content 90)"
    using assms by (simp add: count_document reserved_free_def count_absent)
  moreover have "count_list (svg_document base dateStr title content accent) GT
      = 9 + 2 * length (wrapText content 90)"
    using assms by (simp add: count_document reserved_free_def count_absent)
  ultimately show ?thesis
    by (simp add: writeSvg_def no_raw_reserved_def)
qed

theorem writeSvg_body_escaped_witness:
  "\<exists>doc. writeSvg_v1 (str ''2026-01-01'') Map.empty (str ''news.svg'') (str ''Daily News'')
            (str ''a < b & c'') (str ''#58a6ff'') (str ''news.svg'') = Some doc \<and>
         no_raw_reserved 1 doc"
proof -
  have "reserved_free (str ''Daily News'')" "reserved_free (str ''#58a6ff'')"
      "reserved_free (str ''2026-01-01'')"
    by (simp_all add: reserved_free_def str_def)
  from writeSvg_body_escaped [OF this, of 70 Map.empty "str ''news.svg''" "str ''a < b & c''"]
  have "\<exists>doc. writeSvg 70 (str ''2026-01-01'') Map.empty (str ''news.svg'') (str ''Daily News'')
            (str ''a < b & c'') (str ''#58a6ff'') (str ''news.svg'') = Some doc \<and>
           no_raw_reserved (length (wrapText (str ''a < b & c'') 90)) doc" .
  moreover have "length (wrapText (str ''a < b & c'') 90) = 1"
    by (simp add: wrapText_def split_sp_def str_def trim_def is_ws_def)
  ultimately show ?thesis by (simp add: writeSvg_v1_def)
qed

section \<open>Properties of the providers\<close>

lemma set_replace_all: "set (replace_all c r s) \<subseteq> (set s - {c}) \<union> set r"
  by (auto simp add: replace_all_def split: if_splits)

text \<open>
  Whatever a provider returns is a single line: it contains no line feed.
\<close>

theorem providers_single_line:
  "(generateGroq_v1 env prompt = Inr t \<longrightarrow> NL \<notin> set t) \<and>
   (generateGemini env prompt = Inr t \<longrightarrow> NL \<notin> set t) \<and>
   (generateGroq_v2 env prompt = Inr t \<longrightarrow> NL \<notin> set t)"
proof -
  have "NL \<notin> set (replace_all NL [SP] s)" for s
    using set_replace_all [of NL "[SP]" s] by auto
  then show ?thesis
    by (auto simp add: generateGroq_v1_def generateGemini_def generateGroq_v2_def Let_def
        split: if_splits sum.splits)
qed

theorem providers_single_line_witness:
  "generateGemini (example_env\<lparr>gemini_generateContent := (\<lambda>_. Inr (Some [0x41, NL, 0x42]))\<rparr>) (str ''joke'')
     = Inr [0x41, SP, 0x42] \<and>
   NL \<notin> set [0x41, SP, 0x42 :: 16 word]"
  using providers_single_line
    [of "example_env\<lparr>gemini_generateContent := (\<lambda>_. Inr (Some [0x41, NL, 0x42]))\<rparr>" "str ''joke''"
        "[0x41, SP, 0x42]"]
  by (simp add: example_env_def generateGemini_def truthy_def trim_def is_ws_def replace_all_def str_def)

text \<open>
  The three providers that trim before they test for emptiness (\<^verbatim>\<open>generateGemini\<close> in
  both variants and \<^verbatim>\<open>generateGroq\<close> of the second variant) fail on a text that is empty
  after trimming.
\<close>

theorem trimmed_providers_reject_blank:
  assumes "trim s = []"
  shows "(gemini_generateContent env prompt = Inr (Some s) \<longrightarrow> isl (generateGemini env prompt)) \<and>
     (groq_completions env
        (if truthy (GROQ_MODEL env) then the (GROQ_MODEL env) else str ''llama-3.1-8b-instant'') prompt
        = Inr (Some s) \<longrightarrow> isl (generateGroq_v2 env prompt))"
  using assms by (simp add: generateGemini_def generateGroq_v2_def truthy_def)

theorem trimmed_providers_reject_blank_witness:
  "trim [SP, NL] = [] \<and>
   generateGemini (example_env\<lparr>gemini_generateContent := (\<lambda>_. Inr (Some [SP, NL]))\<rparr>) (str ''joke'')
     = Inl (Error (str ''Empty Gemini response'')) \<and>
   generateGroq_v2 (example_env\<lparr>groq_completions := (\<lambda>_ _. Inr (Some [SP, NL]))\<rparr>) (str ''joke'')
     = Inl (Error (str ''Empty Groq response''))"
proof -
  have t: "trim [SP, NL] = []"
    by (simp add: trim_def is_ws_def)
  from trimmed_providers_reject_blank
      [OF t, of "example_env\<lparr>gemini_generateContent := (\<lambda>_. Inr (Some [SP, NL]))\<rparr>" "str ''joke''"]
    t
  show ?thesis
    by (simp add: example_env_def generateGemini_def generateGroq_v2_def truthy_def str_def)
qed

text \<open>
  C6 fails for the streaming \<^verbatim>\<open>generateGroq\<close> of the first variant, which tests the
  concatenated text without trimming it: when the key is set and the stream carries a
  text that is not empty but is empty after trimming, the call returns that text, with
  its line breaks turned into spaces, instead of failing.
\<close>

theorem generateGroq_v1_whitespace_only:
  "truthy (GROQ_API_KEY env) \<and> groq_chat env prompt = Inr [Some s] \<and> s \<noteq> [] \<and> trim s = [] \<longrightarrow>
     generateGroq_v1 env prompt = Inr (replace_all NL [SP] s)"
  by (simp add: generateGroq_v1_def truthy_def)

theorem generateGroq_v1_whitespace_only_witness:
  "generateGroq_v1 (example_env\<lparr>groq_chat := (\<lambda>_. Inr [Some [SP, NL]])\<rparr>) (str ''joke'') = Inr [SP, SP]"
  using generateGroq_v1_whitespace_only
    [of "example_env\<lparr>groq_chat := (\<lambda>_. Inr [Some [SP, NL]])\<rparr>" "str ''joke''" "[SP, NL]"]
  by (simp add: example_env_def truthy_def trim_def is_ws_def replace_all_def str_def)

section \<open>Properties of generateWithFallback\<close>

text \<open>The index that the second variant computes lies inside a non-empty list.\<close>

lemma floor_index:
  assumes "0 \<le> (r::real)" "r < 1" "0 < n"
  shows "0 \<le> \<lfloor>r * real n\<rfloor> \<and> \<lfloor>r * real n\<rfloor> < int n"
proof -
  have "0 \<le> r * real n" using assms by simp
  then have a: "0 \<le> \<lfloor>r * real n\<rfloor>" by simp
  have "r * real n < 1 * real n"
    using assms by (intro mult_strict_right_mono) simp_all
  then have "r * real n < of_int (int n)" by simp
  then have "\<lfloor>r * real n\<rfloor> < int n" by (simp only: floor_less_iff)
  with a show ?thesis by simp
qed

lemma js_index_random:
  assumes "xs \<noteq> []" "0 \<le> (r::real)" "r < 1"
  shows "\<exists>v. js_index xs \<lfloor>r * real (length xs)\<rfloor> = Some v \<and> v \<in> set xs"
proof -
  have "0 < length xs" using assms(1) by simp
  from floor_index [OF assms(2,3) this]
  have i: "0 \<le> \<lfloor>r * real (length xs)\<rfloor>" "\<lfloor>r * real (length xs)\<rfloor> < int (length xs)"
    by simp_all
  then have "nat \<lfloor>r * real (length xs)\<rfloor> < length xs"
    by linarith
  then have "xs ! nat \<lfloor>r * real (length xs)\<rfloor> \<in> set xs"
    by (rule nth_mem)
  with i show ?thesis by (simp add: js_index_def)
qed

text \<open>
  C3: with a non-empty local fallback list (and a random number in the range of
  \<^verbatim>\<open>Math.random()\<close>) the second variant of \<open>generateWithFallback\<close> never fails: it
  returns a string, not an error and not \<^verbatim>\<open>undefined\<close>; when both providers fail the
  string is an element of the list, and the only element when the list has one.
\<close>

theorem generateWithFallback_v2_never_fails:
  assumes "localFallback \<noteq> []" "0 \<le> rnd" "rnd < 1"
  shows "\<exists>v tr'. generateWithFallback_v2 env rnd prompt localFallback tr = (Inr (Some v), tr') \<and>
           (isl (generateGemini env prompt) \<and> isl (generateGroq_v2 env prompt) \<longrightarrow>
              v \<in> set localFallback \<and> (\<forall>x. localFallback = [x] \<longrightarrow> v = x))"
proof -
  obtain v where v: "js_index localFallback \<lfloor>rnd * real (length localFallback)\<rfloor> = Some v"
      "v \<in> set localFallback"
    using js_index_random [OF assms] by blast
  show ?thesis
  proof (cases "generateGemini env prompt")
    case (Inr t)
    then show ?thesis by (simp add: generateWithFallback_v2_def)
  next
    case e1: (Inl e1)
    show ?thesis
    proof (cases "generateGroq_v2 env prompt")
      case (Inr t)
      with e1 show ?thesis by (simp add: generateWithFallback_v2_def)
    next
      case (Inl e2)
      with e1 v show ?thesis by (auto simp add: generateWithFallback_v2_def Let_def)
    qed
  qed
qed

theorem generateWithFallback_v2_never_fails_witness:
  "isl (generateGemini (example_env\<lparr>GEMINI_API_KEY := None, GROQ_API_KEY := None\<rparr>) (str ''joke'')) \<and>
   isl (generateGroq_v2 (example_env\<lparr>GEMINI_API_KEY := None, GROQ_API_KEY := None\<rparr>) (str ''joke'')) \<and>
   fst (generateWithFallback_v2 (example_env\<lparr>GEMINI_API_KEY := None, GROQ_API_KEY := None\<rparr>)
          (1 / 2) (str ''joke'') [str ''X''] []) = Inr (Some (str ''X''))"
  using generateWithFallback_v2_never_fails
    [of "[str ''X'']" "1 / 2" "example_env\<lparr>GEMINI_API_KEY := None, GROQ_API_KEY := None\<rparr>"
        "str ''joke''" "[]"]
  by (auto simp add: example_env_def generateGemini_def generateGroq_v2_def truthy_def)

text \<open>
  C4: in both variants, when the first provider attempt succeeds with a text, the
  orchestrator returns that text, and the trace grows by the call of the first provider
  only: the second provider is not called and nothing is warned.
\<close>

theorem first_success_short_circuits:
  "(generateGroq_v1 env prompt = Inr a \<longrightarrow>
      generateWithFallback_v1 env prompt tr = (Inr a, tr @ [Called Groq prompt])) \<and>
   (generateGemini env prompt = Inr a \<longrightarrow>
      generateWithFallback_v2 env rnd prompt localFallback tr
        = (Inr (Some a), tr @ [Called Gemini prompt]))"
  by (simp add: generateWithFallback_v1_def generateWithFallback_v2_def)

theorem first_success_short_circuits_witness:
  "generateWithFallback_v1 example_env (str ''joke'') [] = (Inr (str ''A''), [Called Groq (str ''joke'')]) \<and>
   generateWithFallback_v2 example_env (1 / 2) (str ''joke'') [str ''X''] []
     = (Inr (Some (str ''A'')), [Called Gemini (str ''joke'')])"
proof -
  have "generateGroq_v1 example_env (str ''joke'') = Inr (str ''A'')"
    by (simp add: generateGroq_v1_def example_env_def truthy_def replace_all_def str_def)
  moreover have "generateGemini example_env (str ''joke'') = Inr (str ''A'')"
    by (simp add: generateGemini_def example_env_def truthy_def replace_all_def str_def trim_def is_ws_def)
  ultimately show ?thesis
    using first_success_short_circuits [of example_env "str ''joke''" "str ''A''" "[]" "1 / 2" "[str ''X'']"]
    by simp
qed

text \<open>
  The first variant of \<open>generateWithFallback\<close> fails only when the Groq call
  fails, and then with the error of the Gemini call when a Gemini key is set, and with
  the error of the Groq call when none is.
\<close>

theorem generateWithFallback_v1_failure:
  "fst (generateWithFallback_v1 env prompt tr) = Inl e \<longrightarrow>
     isl (generateGroq_v1 env prompt) \<and>
     (if truthy (GEMINI_API_KEY env) then generateGemini env prompt = Inl e
      else generateGroq_v1 env prompt = Inl e)"
  by (auto simp add: generateWithFallback_v1_def Let_def split: sum.splits if_splits)

theorem generateWithFallback_v1_failure_witness:
  "fst (generateWithFallback_v1 (example_env\<lparr>GROQ_API_KEY := None, GEMINI_API_KEY := None\<rparr>)
          (str ''joke'') []) = Inl (Error (str ''No GROQ key'')) \<and>
   generateGroq_v1 (example_env\<lparr>GROQ_API_KEY := None, GEMINI_API_KEY := None\<rparr>) (str ''joke'')
     = Inl (Error (str ''No GROQ key''))"
  using generateWithFallback_v1_failure
    [of "example_env\<lparr>GROQ_API_KEY := None, GEMINI_API_KEY := None\<rparr>" "str ''joke''" "[]"
        "Error (str ''No GROQ key'')"]
  by (simp add: example_env_def generateWithFallback_v1_def generateGroq_v1_def truthy_def)

section \<open>Properties of the news fetchers and of the category rotation\<close>

text \<open>
  C5 fails in the code: when the key is set and the service answers with an empty list
  of articles, \<^verbatim>\<open>fetchNewsAPI\<close> and \<^verbatim>\<open>fetchGNews\<close> do not fail; they return \<^verbatim>\<open>undefined\<close>.
\<close>

theorem fetch_zero_articles_returns_undefined:
  "(truthy (NEWS_API_KEY env) \<and> newsapi_top_headlines env cat = Inr (Some []) \<longrightarrow>
      fetchNewsAPI env cat = Inr None) \<and>
   (truthy (NEWS_API_KEY_2 env) \<and> gnews_top_headlines env cat = Inr (Some []) \<longrightarrow>
      fetchGNews env cat = Inr None)"
  by (simp add: fetchNewsAPI_def fetchGNews_def first_title_def)

theorem fetch_zero_articles_returns_undefined_witness:
  "fetchNewsAPI example_env (str ''business'') = Inr None \<and>
   fetchGNews example_env (str ''business'') = Inr None"
  using fetch_zero_articles_returns_undefined [of example_env "str ''business''"]
  by (simp add: example_env_def truthy_def str_def)

lemma getDay_range: "0 \<le> getDay t \<and> getDay t < 7"
  by (simp add: getDay_def)

lemma getDay_plus: "getDay (t + k * msPerDay) = (getDay t + k) mod 7"
  by (simp add: getDay_def Day_def msPerDay_def mod_simps add.commute add.left_commute)

lemma upt_7: "[0..<7] = [0, 1, 2, 3, 4, 5, 6]"
  by (simp add: upt_rec)

lemma category_shift:
  "category (today + int k * msPerDay) = js_index CATEGORY_ROTATION ((getDay today + int k) mod 7)"
  by (simp add: category_def getDay_plus)

lemma week_distinct:
  assumes "0 \<le> d" "d < 7"
  shows "distinct (map (\<lambda>k. js_index CATEGORY_ROTATION ((d + int k) mod 7)) [0..<7]) \<and>
         set (map (\<lambda>k. js_index CATEGORY_ROTATION ((d + int k) mod 7)) [0..<7]) = Some ` set CATEGORY_ROTATION"
proof -
  from assms have "d = 0 \<or> d = 1 \<or> d = 2 \<or> d = 3 \<or> d = 4 \<or> d = 5 \<or> d = 6"
    by arith
  then show ?thesis
    by (elim disjE) (simp_all add: upt_7 js_index_def CATEGORY_ROTATION_def str_def, auto)
qed

text \<open>
  C8: the category is a function of the date and depends on its day only; on a Sunday
  (\<^verbatim>\<open>getDay\<close> 0) it is the first entry of the rotation, \<^verbatim>\<open>business\<close>; and the categories
  of seven consecutive days are pairwise different and are exactly the seven entries
  of the rotation.
\<close>

theorem category_rotation:
  "(getDay today = 0 \<longrightarrow> category today = Some (str ''business'')) \<and>
   (Day today = Day today' \<longrightarrow> category today = category today') \<and>
   distinct (map (\<lambda>k. category (today + int k * msPerDay)) [0..<7]) \<and>
   set (map (\<lambda>k. category (today + int k * msPerDay)) [0..<7]) = Some ` set CATEGORY_ROTATION"
proof -
  have "getDay today = 0 \<longrightarrow> category today = Some (str ''business'')"
    by (simp add: category_def js_index_def CATEGORY_ROTATION_def)
  moreover have "Day today = Day today' \<longrightarrow> category today = category today'"
    by (simp add: category_def getDay_def)
  moreover note week_distinct [of "getDay today"] getDay_range [of today]
  ultimately show ?thesis
    by (simp only: category_shift)
qed

theorem category_rotation_witness:
  "getDay (3 * msPerDay) = 0 \<and> category (3 * msPerDay) = Some (str ''business'') \<and>
   map (\<lambda>k. category (3 * msPerDay + int k * msPerDay)) [0..<7] = map Some CATEGORY_ROTATION"
proof -
  have "getDay (3 * msPerDay) = 0"
    by (simp add: getDay_def Day_def msPerDay_def)
  moreover have "map (\<lambda>k. category (3 * msPerDay + int k * msPerDay)) [0..<7] = map Some CATEGORY_ROTATION"
    by (simp add: upt_7 category_def getDay_def Day_def msPerDay_def js_index_def CATEGORY_ROTATION_def)
  ultimately show ?thesis
    using category_rotation [of "3 * msPerDay" "3 * msPerDay"] by simp
qed

end
